theory Spec2Isabelle
  imports Complex_Main
begin

section \<open>JavaScript values\<close>

text \<open>
  The values that core.js handles. A number is an IEEE double; the functions below only
  compare numbers and count upwards from zero, so a finite number is a real and the three
  special values are constructors. A function value is a reference, compared by identity
  (\<open>===\<close>). An object is the table of the properties visible on it (own and inherited), the
  first entry for a key being the one a read finds. A property key is a name, an array
  index (always written \<open>KIdx\<close>, never as its decimal name) or the well-known symbol
  \<open>Symbol.iterator\<close>.
\<close>

datatype jsnum = NaN | NegInf | Fin real | PosInf

datatype key = KStr string | KIdx nat | KIterator

datatype jsval =
    JUndefined
  | JNull
  | JBool bool
  | JNum jsnum
  | JStr string
  | JFun nat
  | JArr "jsval list"
  | JObj "(key \<times> jsval) list"

text \<open>What a \<open>throw\<close> carries: a TypeError of the language itself, the Error of
  \<open>toIterable\<close>, or whatever a listener has raised.\<close>

datatype js_error = TypeError | CouldNotConvert | Thrown nat

text \<open>\<open>ToBoolean\<close>: the values that count as true in a condition.\<close>

fun js_truthy :: "jsval \<Rightarrow> bool" where
  "js_truthy JUndefined = False"
| "js_truthy JNull = False"
| "js_truthy (JBool b) = b"
| "js_truthy (JNum NaN) = False"
| "js_truthy (JNum (Fin r)) = (r \<noteq> 0)"
| "js_truthy (JNum _) = True"
| "js_truthy (JStr s) = (s \<noteq> [])"
| "js_truthy _ = True"

text \<open>\<open>Number.isFinite\<close>, and the comparison \<open>delay <= 0\<close> on a number.\<close>

fun isFinite :: "jsval \<Rightarrow> bool" where
  "isFinite (JNum (Fin r)) = True"
| "isFinite _ = False"

fun num_le_zero :: "jsnum \<Rightarrow> bool" where
  "num_le_zero NaN = False"
| "num_le_zero NegInf = True"
| "num_le_zero (Fin r) = (r \<le> 0)"
| "num_le_zero PosInf = False"

datatype js_type = TUndefined | TObject | TBoolean | TNumber | TString | TFunction

fun typeof :: "jsval \<Rightarrow> js_type" where
  "typeof JUndefined = TUndefined"
| "typeof JNull = TObject"
| "typeof (JBool _) = TBoolean"
| "typeof (JNum _) = TNumber"
| "typeof (JStr _) = TString"
| "typeof (JFun _) = TFunction"
| "typeof (JArr _) = TObject"
| "typeof (JObj _) = TObject"

text \<open>
  Reading \<open>value[key]\<close>. On \<open>undefined\<close> and \<open>null\<close> the read raises a TypeError. Strings and
  arrays are the natively iterable values: they carry \<open>Symbol.iterator\<close> (a built-in
  function, reference 0 here), a length and their elements. A key an object does not have
  reads as \<open>undefined\<close>; the methods that booleans, numbers, strings, arrays and functions
  inherit, and the \<open>name\<close> and \<open>length\<close> of a function, are left out.
\<close>

fun get_prop :: "jsval \<Rightarrow> key \<Rightarrow> js_error + jsval" where
  "get_prop JUndefined k = Inl TypeError"
| "get_prop JNull k = Inl TypeError"
| "get_prop (JStr s) k =
     (case k of
        KIterator \<Rightarrow> Inr (JFun 0)
      | KIdx i \<Rightarrow> Inr (if i < length s then JStr [s ! i] else JUndefined)
      | KStr n \<Rightarrow> Inr (if n = ''length'' then JNum (Fin (real (length s))) else JUndefined))"
| "get_prop (JArr xs) k =
     (case k of
        KIterator \<Rightarrow> Inr (JFun 0)
      | KIdx i \<Rightarrow> Inr (if i < length xs then xs ! i else JUndefined)
      | KStr n \<Rightarrow> Inr (if n = ''length'' then JNum (Fin (real (length xs))) else JUndefined))"
| "get_prop (JObj ps) k = Inr (case map_of ps k of None \<Rightarrow> JUndefined | Some v \<Rightarrow> v)"
| "get_prop _ k = Inr JUndefined"

text \<open>
  The assignment \<open>object.key = v\<close>: the new entry is the one later reads find. On
  \<open>undefined\<close> and \<open>null\<close> it raises a TypeError; outside strict code an assignment to a
  property of a primitive is dropped. An array keeps its elements only: a write at an
  index replaces an element or extends the array, the gap reading as \<open>undefined\<close>, and a
  write under a name is not kept.
\<close>

fun set_prop :: "jsval \<Rightarrow> key \<Rightarrow> jsval \<Rightarrow> js_error + jsval" where
  "set_prop JUndefined k v = Inl TypeError"
| "set_prop JNull k v = Inl TypeError"
| "set_prop (JObj ps) k v = Inr (JObj ((k, v) # ps))"
| "set_prop (JArr xs) (KIdx i) v =
     Inr (JArr (if i < length xs then xs[i := v]
                else xs @ replicate (i - length xs) JUndefined @ [v]))"
| "set_prop x k v = Inr x"

text \<open>Sequencing of steps that may raise: the first exception ends the computation.\<close>

definition bind_err :: "js_error + 'a \<Rightarrow> ('a \<Rightarrow> js_error + 'b) \<Rightarrow> js_error + 'b" where
  "bind_err r f = (case r of Inl e \<Rightarrow> Inl e | Inr v \<Rightarrow> f v)"

section \<open>The host\<close>

text \<open>
  Listeners are functions of other files, known to the dispatcher by reference only. What a
  listener does when it is called is given by the host, as a function of the listener and
  of its argument: a list of steps, each one a call of \<open>on\<close>, \<open>off\<close> or \<open>trigger\<close> on the
  dispatcher that is calling it, a write into the object it was handed, or a raise. With
  the empty list the listener returns at once. A listener reaches the dispatcher through
  these three methods only.
\<close>

type_synonym listener = nat

datatype action =
    DoOn string listener
  | DoOff string listener
  | DoTrigger string jsval
  | DoWrite key jsval
  | DoThrow

text \<open>
  What else the file takes from its surroundings: whether \<open>Symbol\<close> exists, the location of
  the window, the string form the language gives a value that is not a string, the stack
  text a fresh Error captures, and the handle \<open>window.setTimeout\<close> hands out.
\<close>

record host =
  has_Symbol :: bool
  location_href :: string
  to_string :: "jsval \<Rightarrow> string"
  captured_stack :: string
  next_timer :: nat
  listener_body :: "listener \<Rightarrow> jsval \<Rightarrow> action list"

text \<open>Three hosts for the examples: one in which every listener returns at once, one in
  which a given listener removes itself from a given event when called and the others
  return at once, and one in which a given listener raises.\<close>

definition quiet_host :: host where
  "quiet_host =
     \<lparr> has_Symbol = True, location_href = ''about:blank'', to_string = (\<lambda>v. ''[object Object]''),
       captured_stack = ''Error'', next_timer = 1, listener_body = (\<lambda>cb details. []) \<rparr>"

definition one_shot_host :: "string \<Rightarrow> listener \<Rightarrow> host" where
  "one_shot_host eventName L =
     quiet_host\<lparr> listener_body := (\<lambda>cb details. if cb = L then [DoOff eventName L] else []) \<rparr>"

definition raising_host :: "listener \<Rightarrow> host" where
  "raising_host L = quiet_host\<lparr> listener_body := (\<lambda>cb details. if cb = L then [DoThrow] else []) \<rparr>"

text \<open>The calls the code makes to functions it was handed, in order, each with the
  argument as it was at the time of the call.\<close>

datatype effect = Invoke listener jsval | Reply jsval

section \<open>EventDispatcher\<close>

record dispatcher =
  eventMap :: "string \<rightharpoonup> listener list"

definition EventDispatcher :: dispatcher where
  "EventDispatcher = \<lparr> eventMap = Map.empty \<rparr>"

definition on :: "'a dispatcher_scheme \<Rightarrow> string \<Rightarrow> listener \<Rightarrow> 'a dispatcher_scheme" where
  "on this eventName callback =
     (case eventMap this eventName of
        None \<Rightarrow> this\<lparr> eventMap := (eventMap this)(eventName \<mapsto> [] @ [callback]) \<rparr>
      | Some callbacks \<Rightarrow> this\<lparr> eventMap := (eventMap this)(eventName \<mapsto> callbacks @ [callback]) \<rparr>)"

text \<open>\<open>callbacks.splice(i, 1)\<close> on an index inside the array.\<close>

definition splice1 :: "'a list \<Rightarrow> nat \<Rightarrow> 'a list" where
  "splice1 xs i = take i xs @ drop (Suc i) xs"

text \<open>The scan of \<open>off\<close>, from index \<open>i\<close> up to the length \<open>ii\<close> read before the loop. The array
  is the one stored in the map, so the splice changes the entry. A read past the end of an
  array gives \<open>undefined\<close>, which is no listener.\<close>

function off_loop ::
  "'a dispatcher_scheme \<Rightarrow> string \<Rightarrow> listener list \<Rightarrow> listener \<Rightarrow> nat \<Rightarrow> nat
     \<Rightarrow> jsval \<times> 'a dispatcher_scheme" where
  "off_loop this eventName callbacks callback i ii =
     (if i < ii then
        (if i < length callbacks \<and> callbacks ! i = callback then
           (let callbacks' = splice1 callbacks i in
            if length callbacks' = 0
            then (JBool True, this\<lparr> eventMap := (eventMap this)(eventName := None) \<rparr>)
            else (JBool True, this\<lparr> eventMap := (eventMap this)(eventName \<mapsto> callbacks') \<rparr>))
         else off_loop this eventName callbacks callback (Suc i) ii)
      else (JBool False, this))"
  by pat_completeness auto
termination
  by (relation "measure (\<lambda>(this, eventName, callbacks, callback, i, ii). ii - i)") auto

definition off :: "'a dispatcher_scheme \<Rightarrow> string \<Rightarrow> listener \<Rightarrow> jsval \<times> 'a dispatcher_scheme" where
  "off this eventName callback =
     (case eventMap this eventName of
        None \<Rightarrow> (JBool True, this)
      | Some callbacks \<Rightarrow> off_loop this eventName callbacks callback 0 (length callbacks))"

text \<open>
  The loop of \<open>trigger\<close> and the listeners it calls. \<open>for (const callback of callbacks)\<close>
  walks the array object that was in the map when \<open>trigger\<close> was entered, reading its length
  and its next element afresh at every step. While listeners run, that object changes
  through \<open>on\<close> (a push) and \<open>off\<close> (a splice) on the same event name only, and it stays the
  entry of the name until an \<open>off\<close> empties it and deletes the entry; from then on it is
  empty for good, whatever is registered under the name later in a new array. So the loop
  reads the entry of its event name at every step, and ends when the entry was deleted
  during the call it has just made. To that end a run reports the event names whose entry
  it has deleted.

  A task is either the loop over the entry of an event name, at an index and with the
  details, or the rest of the steps of a listener that was called with the details. The
  result of a run is how it ended (a raise leaves through every caller up to \<open>trigger\<close>), the
  dispatcher, the trace, the event names whose entry was deleted, and the details as the
  writes left them. A listener does not catch what a \<open>trigger\<close> it calls raises. A run that
  never ends, as when a listener registers itself again each time it is called or triggers
  the event it is listening to, has no result: the limits of memory and of the call stack
  are not part of the model.
\<close>

datatype task = Loop string nat jsval | Body listener "action list" jsval

type_synonym 'a run =
  "(js_error + unit) \<times> 'a dispatcher_scheme \<times> effect list \<times> string list \<times> jsval"

partial_function (option) exec :: "host \<Rightarrow> task \<Rightarrow> 'a dispatcher_scheme \<Rightarrow> 'a run option" where
  "exec h t this =
     (case t of
        Loop eventName i details \<Rightarrow>
          (case eventMap this eventName of
             None \<Rightarrow> Some (Inr (), this, [], [], details)
           | Some callbacks \<Rightarrow>
               if i < length callbacks then
                 Option.bind
                   (exec h (Body (callbacks ! i) (listener_body h (callbacks ! i) details) details) this)
                   (\<lambda>(r, this1, tr1, del1, details1).
                      case r of
                        Inl e \<Rightarrow>
                          Some (Inl e, this1, Invoke (callbacks ! i) details # tr1, del1, details1)
                      | Inr u \<Rightarrow>
                          if eventName \<in> set del1
                          then Some (Inr (), this1, Invoke (callbacks ! i) details # tr1, del1, details1)
                          else Option.bind (exec h (Loop eventName (Suc i) details1) this1)
                                 (\<lambda>(r2, this2, tr2, del2, details2).
                                    Some (r2, this2, Invoke (callbacks ! i) details # tr1 @ tr2,
                                          del1 @ del2, details2)))
               else Some (Inr (), this, [], [], details))
      | Body cb acts details \<Rightarrow>
          (case acts of
             [] \<Rightarrow> Some (Inr (), this, [], [], details)
           | a # rest \<Rightarrow>
               (case a of
                  DoThrow \<Rightarrow> Some (Inl (Thrown cb), this, [], [], details)
                | DoOn e l \<Rightarrow> exec h (Body cb rest details) (on this e l)
                | DoOff e l \<Rightarrow>
                    Option.bind (exec h (Body cb rest details) (snd (off this e l)))
                      (\<lambda>(r, this1, tr1, del1, details1).
                         Some (r, this1, tr1,
                               (if eventMap this e \<noteq> None \<and> eventMap (snd (off this e l)) e = None
                                then [e] else []) @ del1, details1))
                | DoWrite k v \<Rightarrow>
                    (case set_prop details k v of
                       Inl err \<Rightarrow> Some (Inl err, this, [], [], details)
                     | Inr details' \<Rightarrow> exec h (Body cb rest details') this)
                | DoTrigger e d \<Rightarrow>
                    (case eventMap this e of
                       None \<Rightarrow> exec h (Body cb rest details) this
                     | Some callbacks \<Rightarrow>
                         Option.bind (exec h (Loop e 0 d) this)
                           (\<lambda>(r, this1, tr1, del1, d1).
                              case r of
                                Inl err \<Rightarrow> Some (Inl err, this1, tr1, del1, details)
                              | Inr u \<Rightarrow>
                                  Option.bind (exec h (Body cb rest details) this1)
                                    (\<lambda>(r2, this2, tr2, del2, details2).
                                       Some (r2, this2, tr1 @ tr2, del1 @ del2, details2)))))))"

text \<open>\<open>trigger\<close> returns \<open>false\<close> when the event has no entry; after the loop the function
  ends without a \<open>return\<close>, so the call yields \<open>undefined\<close>. An exception of a listener
  leaves \<open>trigger\<close>.\<close>

definition trigger ::
  "host \<Rightarrow> 'a dispatcher_scheme \<Rightarrow> string \<Rightarrow> jsval
     \<Rightarrow> ((js_error + jsval) \<times> 'a dispatcher_scheme \<times> effect list) option" where
  "trigger h this eventName details =
     (case eventMap this eventName of
        None \<Rightarrow> Some (Inr (JBool False), this, [])
      | Some callbacks \<Rightarrow>
          (case exec h (Loop eventName 0 details) this of
             None \<Rightarrow> None
           | Some (Inl e, this', tr, del, details') \<Rightarrow> Some (Inl e, this', tr)
           | Some (Inr u, this', tr, del, details') \<Rightarrow> Some (Inr JUndefined, this', tr)))"

text \<open>The sequence registered for an event name: empty when the name has no entry.\<close>

definition listeners :: "'a dispatcher_scheme \<Rightarrow> string \<Rightarrow> listener list" where
  "listeners this eventName = (case eventMap this eventName of None \<Rightarrow> [] | Some cbs \<Rightarrow> cbs)"

text \<open>No event name is mapped to an empty sequence.\<close>

definition no_empty_entry :: "'a dispatcher_scheme \<Rightarrow> bool" where
  "no_empty_entry this = (\<forall>e. eventMap this e \<noteq> Some [])"

section \<open>The message router\<close>

text \<open>The class \<open>Yomichan\<close> extends the dispatcher with the table of message handlers, built
  once by the constructor: the two bound methods under their action names.\<close>

datatype handler = OnMessageGetUrl | OnMessageOptionsUpdate

record yomichan = dispatcher +
  messageHandlers :: "(jsval \<times> handler) list"

definition Yomichan :: yomichan where
  "Yomichan =
     \<lparr> eventMap = Map.empty,
       messageHandlers =
         [(JStr ''getUrl'', OnMessageGetUrl), (JStr ''optionsUpdate'', OnMessageOptionsUpdate)] \<rparr>"

definition triggerOrphaned ::
  "host \<Rightarrow> yomichan \<Rightarrow> jsval \<Rightarrow> ((js_error + jsval) \<times> yomichan \<times> effect list) option" where
  "triggerOrphaned h this error =
     (case trigger h this ''orphaned'' (JObj [(KStr ''error'', error)]) of
        None \<Rightarrow> None
      | Some (Inl e, this', tr) \<Rightarrow> Some (Inl e, this', tr)
      | Some (Inr r, this', tr) \<Rightarrow> Some (Inr JUndefined, this', tr))"

definition onMessageGetUrl ::
  "host \<Rightarrow> yomichan \<Rightarrow> ((js_error + jsval) \<times> yomichan \<times> effect list) option" where
  "onMessageGetUrl h this = Some (Inr (JObj [(KStr ''url'', JStr (location_href h))]), this, [])"

text \<open>The parameter pattern \<open>{source}\<close> reads \<open>source\<close> from the first argument, which raises
  on \<open>undefined\<close> and \<open>null\<close>. The result of \<open>trigger\<close> is dropped.\<close>

definition onMessageOptionsUpdate ::
  "host \<Rightarrow> yomichan \<Rightarrow> jsval \<Rightarrow> ((js_error + jsval) \<times> yomichan \<times> effect list) option" where
  "onMessageOptionsUpdate h this params =
     (case get_prop params (KStr ''source'') of
        Inl e \<Rightarrow> Some (Inl e, this, [])
      | Inr source \<Rightarrow>
          (case trigger h this ''optionsUpdate'' (JObj [(KStr ''source'', source)]) of
             None \<Rightarrow> None
           | Some (Inl e, this', tr) \<Rightarrow> Some (Inl e, this', tr)
           | Some (Inr r, this', tr) \<Rightarrow> Some (Inr JUndefined, this', tr)))"

fun call_handler ::
  "host \<Rightarrow> yomichan \<Rightarrow> handler \<Rightarrow> jsval \<Rightarrow> jsval
     \<Rightarrow> ((js_error + jsval) \<times> yomichan \<times> effect list) option" where
  "call_handler h this OnMessageGetUrl params sender = onMessageGetUrl h this"
| "call_handler h this OnMessageOptionsUpdate params sender = onMessageOptionsUpdate h this params"

text \<open>\<open>_onMessage\<close>: the pattern \<open>{action, params}\<close> reads both fields of the message; the
  handler is looked up by the action; its result goes to the reply callback, a function of
  the channel whose call is an entry of the trace. Every path that returns, returns
  \<open>false\<close>.\<close>

definition onMessage ::
  "host \<Rightarrow> yomichan \<Rightarrow> jsval \<Rightarrow> jsval \<Rightarrow> ((js_error + jsval) \<times> yomichan \<times> effect list) option" where
  "onMessage h this message sender =
     (case get_prop message (KStr ''action'') of
        Inl e \<Rightarrow> Some (Inl e, this, [])
      | Inr action \<Rightarrow>
          (case get_prop message (KStr ''params'') of
             Inl e \<Rightarrow> Some (Inl e, this, [])
           | Inr params \<Rightarrow>
               (case map_of (messageHandlers this) action of
                  None \<Rightarrow> Some (Inr (JBool False), this, [])
                | Some handler \<Rightarrow>
                    (case call_handler h this handler params sender of
                       None \<Rightarrow> None
                     | Some (Inl e, this', tr) \<Rightarrow> Some (Inl e, this', tr)
                     | Some (Inr result, this', tr) \<Rightarrow>
                         Some (Inr (JBool False), this', tr @ [Reply result])))))"

section \<open>Error handling\<close>

definition errorToJson :: "jsval \<Rightarrow> js_error + jsval" where
  "errorToJson error =
     bind_err (get_prop error (KStr ''name'')) (\<lambda>name.
     bind_err (get_prop error (KStr ''message'')) (\<lambda>message.
     bind_err (get_prop error (KStr ''stack'')) (\<lambda>stack.
       Inr (JObj [(KStr ''name'', name), (KStr ''message'', message), (KStr ''stack'', stack)]))))"

text \<open>
  \<open>new Error(message)\<close> as the language defines it: the object gets a property \<open>message\<close>
  holding the string form of the argument unless the argument is \<open>undefined\<close>; it captures
  a stack; \<open>name\<close> and the empty \<open>message\<close> are inherited from \<open>Error.prototype\<close>.
\<close>

definition js_ToString :: "host \<Rightarrow> jsval \<Rightarrow> string" where
  "js_ToString h v = (case v of JStr s \<Rightarrow> s | _ \<Rightarrow> to_string h v)"

definition Error_prototype :: "(key \<times> jsval) list" where
  "Error_prototype = [(KStr ''name'', JStr ''Error''), (KStr ''message'', JStr [])]"

definition new_Error :: "host \<Rightarrow> jsval \<Rightarrow> jsval" where
  "new_Error h message =
     JObj ((if message = JUndefined then [] else [(KStr ''message'', JStr (js_ToString h message))])
           @ [(KStr ''stack'', JStr (captured_stack h))] @ Error_prototype)"

definition jsonToError :: "host \<Rightarrow> jsval \<Rightarrow> js_error + jsval" where
  "jsonToError h jsonError =
     bind_err (get_prop jsonError (KStr ''message'')) (\<lambda>message.
     let error = new_Error h message in
     bind_err (get_prop jsonError (KStr ''name'')) (\<lambda>name.
     bind_err (set_prop error (KStr ''name'') name) (\<lambda>error1.
     bind_err (get_prop jsonError (KStr ''stack'')) (\<lambda>stack.
       set_prop error1 (KStr ''stack'') stack))))"

section \<open>Common helpers\<close>

text \<open>The loop of \<open>toIterable\<close>, entered once \<open>length\<close> is known to be a finite number.\<close>

function toIterable_loop :: "jsval \<Rightarrow> real \<Rightarrow> nat \<Rightarrow> jsval list \<Rightarrow> js_error + jsval list" where
  "toIterable_loop value len i array =
     (if real i < len then
        (case get_prop value (KIdx i) of
           Inl e \<Rightarrow> Inl e
         | Inr v \<Rightarrow> toIterable_loop value len (Suc i) (array @ [v]))
      else Inr array)"
  by pat_completeness auto
termination
proof (relation "measure (\<lambda>(value, len, i, array). nat \<lceil>len\<rceil> - i)")
  show "wf (measure (\<lambda>(value, len, i, array). nat \<lceil>len\<rceil> - i))" by simp
next
  fix "value" :: jsval and len :: real and i :: nat and array :: "jsval list" and v :: jsval
  assume "real i < len"
  then have "int i < \<lceil>len\<rceil>" by (simp add: less_ceiling_iff)
  then have "i < nat \<lceil>len\<rceil>" by linarith
  then show "((value, len, Suc i, array @ [v]), (value, len, i, array))
      \<in> measure (\<lambda>(value, len, i, array). nat \<lceil>len\<rceil> - i)" by simp
qed

definition toIterable_arraylike :: "jsval \<Rightarrow> js_error + jsval" where
  "toIterable_arraylike value =
     (if value \<noteq> JNull \<and> typeof value = TObject then
        (case get_prop value (KStr ''length'') of
           Inl e \<Rightarrow> Inl e
         | Inr len \<Rightarrow>
             (if typeof len = TNumber \<and> isFinite len then
                (case len of
                   JNum (Fin r) \<Rightarrow>
                     (case toIterable_loop value r 0 [] of
                        Inl e \<Rightarrow> Inl e
                      | Inr array \<Rightarrow> Inr (JArr array))
                 | _ \<Rightarrow> Inl CouldNotConvert)
              else Inl CouldNotConvert))
      else Inl CouldNotConvert)"

definition toIterable :: "host \<Rightarrow> jsval \<Rightarrow> js_error + jsval" where
  "toIterable h value =
     (if has_Symbol h then
        (case get_prop value KIterator of
           Inl e \<Rightarrow> Inl e
         | Inr it \<Rightarrow> if typeof it \<noteq> TUndefined then Inr value else toIterable_arraylike value)
      else toIterable_arraylike value)"

text \<open>
  The two conditions under which \<open>toIterable\<close> is meant to give a result: the value carries
  \<open>Symbol.iterator\<close>, or it is an object other than \<open>null\<close> whose \<open>length\<close> is a finite number.
\<close>

definition natively_iterable :: "host \<Rightarrow> jsval \<Rightarrow> bool" where
  "natively_iterable h v =
     (has_Symbol h \<and> (case get_prop v KIterator of Inl e \<Rightarrow> False | Inr it \<Rightarrow> typeof it \<noteq> TUndefined))"

definition array_like :: "jsval \<Rightarrow> bool" where
  "array_like v =
     (v \<noteq> JNull \<and> typeof v = TObject \<and>
      (case get_prop v (KStr ''length'') of
         Inl e \<Rightarrow> False
       | Inr len \<Rightarrow> typeof len = TNumber \<and> isFinite len))"


section \<open>Async utilities\<close>

text \<open>
  A promise is pending, fulfilled or rejected. \<open>promiseTimeout\<close> keeps three variables in
  its closure: the timer handle and the two functions the Promise constructor gave its
  executor, each of them \<open>null\<close> (\<open>None\<close>) once used. The record holds the promise together
  with these variables, the handles the host has still to fire, and the properties the
  function has assigned on the promise object. On the first path of \<open>promiseTimeout\<close> no
  closure exists and nothing is assigned.
\<close>

datatype settled = Pending | Fulfilled jsval | Rejected jsval

datatype settle_fn = PromiseResolve | PromiseReject

datatype closure = ResolveArrow | RejectArrow

record timeout_promise =
  pstate :: settled
  timer :: "nat option"
  promiseResolve :: "settle_fn option"
  promiseReject :: "settle_fn option"
  resolveValue :: jsval
  scheduled :: "nat list"
  properties :: "(string \<times> closure) list"

definition promiseTimeout :: "host \<Rightarrow> jsnum \<Rightarrow> jsval \<Rightarrow> timeout_promise" where
  "promiseTimeout h delay value =
     (if num_le_zero delay then
        \<lparr> pstate = Fulfilled value, timer = None, promiseResolve = None, promiseReject = None,
          resolveValue = value, scheduled = [], properties = [] \<rparr>
      else
        \<lparr> pstate = Pending, timer = Some (next_timer h),
          promiseResolve = Some PromiseResolve, promiseReject = Some PromiseReject,
          resolveValue = value, scheduled = [next_timer h],
          properties = [(''resolve'', ResolveArrow), (''reject'', RejectArrow)] \<rparr>)"

text \<open>The functions of a promise settle it once; later calls do nothing.\<close>

definition settle :: "settle_fn \<Rightarrow> jsval \<Rightarrow> timeout_promise \<Rightarrow> timeout_promise" where
  "settle f v p =
     (if pstate p = Pending
      then p\<lparr> pstate := (case f of PromiseResolve \<Rightarrow> Fulfilled v | PromiseReject \<Rightarrow> Rejected v) \<rparr>
      else p)"

definition complete :: "timeout_promise \<Rightarrow> settle_fn option \<Rightarrow> jsval \<Rightarrow> timeout_promise" where
  "complete p callback v =
     (case callback of
        None \<Rightarrow> p
      | Some f \<Rightarrow>
          (let p1 = (case timer p of
                       None \<Rightarrow> p
                     | Some t \<Rightarrow> p\<lparr> scheduled := removeAll t (scheduled p), timer := None \<rparr>);
               p2 = p1\<lparr> promiseResolve := None, promiseReject := None \<rparr>
           in settle f v p2))"

fun call_closure :: "closure \<Rightarrow> jsval \<Rightarrow> timeout_promise \<Rightarrow> timeout_promise" where
  "call_closure ResolveArrow v p = complete p (promiseResolve p) v"
| "call_closure RejectArrow v p = complete p (promiseReject p) v"

text \<open>A holder calling \<open>promise.resolve(v)\<close> or \<open>promise.reject(v)\<close>: calling a property the
  object does not have raises a TypeError.\<close>

definition call_property :: "timeout_promise \<Rightarrow> string \<Rightarrow> jsval \<Rightarrow> js_error + timeout_promise" where
  "call_property p name v =
     (case map_of (properties p) name of
        None \<Rightarrow> Inl TypeError
      | Some c \<Rightarrow> Inr (call_closure c v p))"

text \<open>The host firing the timer, if it is still scheduled.\<close>

definition timer_fires :: "timeout_promise \<Rightarrow> nat \<Rightarrow> timeout_promise" where
  "timer_fires p t =
     (if t \<in> set (scheduled p)
      then call_closure ResolveArrow (resolveValue p)
             (p\<lparr> scheduled := removeAll t (scheduled p), timer := None \<rparr>)
      else p)"

text \<open>
  A regular expression is its matcher and its \<open>lastIndex\<close>: \<open>exec\<close> runs the matcher from
  \<open>lastIndex\<close> on the string, gives the match or \<open>null\<close>, and stores the new \<open>lastIndex\<close>. A
  match is its array of groups and its index. The replacer is a function of another file;
  it is represented by the string its result settles to.
\<close>

record rmatch =
  groups :: "jsval list"
  m_index :: nat

record regex =
  matcher :: "nat \<Rightarrow> string \<Rightarrow> rmatch option \<times> nat"
  lastIndex :: nat

definition regex_exec :: "regex \<Rightarrow> string \<Rightarrow> rmatch option \<times> regex" where
  "regex_exec rx str =
     (case matcher rx (lastIndex rx) str of (m, li) \<Rightarrow> (m, rx\<lparr> lastIndex := li \<rparr>))"

definition substring :: "string \<Rightarrow> nat \<Rightarrow> nat \<Rightarrow> string" where
  "substring s a b =
     (let a' = min a (length s); b' = min b (length s); lo = min a' b'; hi = max a' b'
      in take (hi - lo) (drop lo s))"

text \<open>The \<open>while\<close> loop of \<open>stringReplaceAsync\<close>. It ends when \<open>exec\<close> gives \<open>null\<close>, which a
  matcher may never do; the loop then has no result.\<close>

partial_function (option) replace_loop ::
  "regex \<Rightarrow> (jsval list \<Rightarrow> string) \<Rightarrow> string \<Rightarrow> nat \<Rightarrow> string list \<Rightarrow> jsval list list
     \<Rightarrow> (regex \<times> nat \<times> string list \<times> jsval list list) option" where
  "replace_loop rx replacer str index parts calls =
     (case regex_exec rx str of
        (None, rx') \<Rightarrow> Some (rx', index, parts, calls)
      | (Some match, rx') \<Rightarrow>
          (let args = groups match @ [JNum (Fin (real (m_index match))), JStr str] in
           replace_loop rx' replacer str (lastIndex rx')
             (parts @ [substring str index (m_index match), replacer args])
             (calls @ [args])))"

text \<open>The result: the state of the returned promise once the parts have settled, the
  regular expression as the calls of \<open>exec\<close> left it, and the argument lists the replacer
  was called with.\<close>

definition stringReplaceAsync ::
  "string \<Rightarrow> regex \<Rightarrow> (jsval list \<Rightarrow> string) \<Rightarrow> (settled \<times> regex \<times> jsval list list) option" where
  "stringReplaceAsync str rx replacer =
     (case replace_loop rx replacer str 0 [] [] of
        None \<Rightarrow> None
      | Some (rx', index, parts, calls) \<Rightarrow>
          (if length parts = 0 then Some (Fulfilled (JStr str), rx', calls)
           else Some (Fulfilled (JStr (concat (parts @ [drop index str]))), rx', calls)))"

section \<open>Properties of the dispatcher\<close>

declare off_loop.simps [simp del]

declare toIterable_loop.simps [simp del]

lemma bind_err_Inr [simp]: "bind_err (Inr v) f = f v"
  by (simp add: bind_err_def)

lemma bind_err_Inl [simp]: "bind_err (Inl e) f = Inl e"
  by (simp add: bind_err_def)

lemma body_quiet [simp]: "listener_body quiet_host cb d = []"
  by (simp add: quiet_host_def)

lemma body_one_shot [simp]:
  "listener_body (one_shot_host e L) cb d = (if cb = L then [DoOff e L] else [])"
  by (simp add: one_shot_host_def)

lemma body_raising [simp]:
  "listener_body (raising_host L) cb d = (if cb = L then [DoThrow] else [])"
  by (simp add: raising_host_def)

lemma eventMap_on:
  "eventMap (on disp e cb) = (eventMap disp)(e \<mapsto> listeners disp e @ [cb])"
  by (simp add: on_def listeners_def split: option.splits)


lemma splice1_first:
  assumes "i < length xs" and "xs ! i = x" and "x \<notin> set (take i xs)"
  shows "splice1 xs i = remove1 x xs"
proof -
  have "xs = take i xs @ x # drop (Suc i) xs"
    using id_take_nth_drop[OF assms(1)] assms(2) by simp
  then have "remove1 x xs = remove1 x (take i xs @ x # drop (Suc i) xs)" by simp
  also have "\<dots> = take i xs @ drop (Suc i) xs"
    using assms(3) by (simp add: remove1_append)
  finally show ?thesis by (simp add: splice1_def)
qed

text \<open>The scan removes the first occurrence of the listener, and the entry with it when
  nothing is left.\<close>

lemma off_loop_scan:
  "i \<le> length cbs \<Longrightarrow> cb \<notin> set (take i cbs) \<Longrightarrow>
   off_loop disp e cbs cb i (length cbs) =
     (if cb \<in> set cbs then
        (JBool True,
         if remove1 cb cbs = [] then disp\<lparr> eventMap := (eventMap disp)(e := None) \<rparr>
         else disp\<lparr> eventMap := (eventMap disp)(e \<mapsto> remove1 cb cbs) \<rparr>)
      else (JBool False, disp))"
proof (induction "length cbs - i" arbitrary: i)
  case 0
  then have "i = length cbs" by simp
  with 0 show ?case by (subst off_loop.simps) simp
next
  case (Suc n)
  then have lt: "i < length cbs" by simp
  show ?case
  proof (cases "cbs ! i = cb")
    case True
    with lt Suc.prems have sp: "splice1 cbs i = remove1 cb cbs"
      by (simp add: splice1_first)
    from True lt have "cb \<in> set cbs" by auto
    with True lt sp show ?thesis by (subst off_loop.simps) (simp add: Let_def)
  next
    case False
    from lt have "take (Suc i) cbs = take i cbs @ [cbs ! i]"
      by (simp add: take_Suc_conv_app_nth)
    with False Suc.prems have nin: "cb \<notin> set (take (Suc i) cbs)" by auto
    from Suc.hyps(2) have "n = length cbs - Suc i" by simp
    from Suc.hyps(1)[OF this _ nin] lt
    have "off_loop disp e cbs cb (Suc i) (length cbs) =
     (if cb \<in> set cbs then
        (JBool True,
         if remove1 cb cbs = [] then disp\<lparr> eventMap := (eventMap disp)(e := None) \<rparr>
         else disp\<lparr> eventMap := (eventMap disp)(e \<mapsto> remove1 cb cbs) \<rparr>)
      else (JBool False, disp))" by simp
    with False lt show ?thesis by (subst off_loop.simps) simp
  qed
qed

lemma off_eq:
  "off disp e cb =
     (case eventMap disp e of
        None \<Rightarrow> (JBool True, disp)
      | Some cbs \<Rightarrow>
          (if cb \<in> set cbs then
             (JBool True,
              if remove1 cb cbs = [] then disp\<lparr> eventMap := (eventMap disp)(e := None) \<rparr>
              else disp\<lparr> eventMap := (eventMap disp)(e \<mapsto> remove1 cb cbs) \<rparr>)
           else (JBool False, disp)))"
  by (simp add: off_def off_loop_scan split: option.splits)

lemma off_no_entry: "eventMap disp e = None \<Longrightarrow> off disp e cb = (JBool True, disp)"
  by (simp add: off_def)

lemma no_empty_entry_on: "no_empty_entry disp \<Longrightarrow> no_empty_entry (on disp e cb)"
  by (simp add: no_empty_entry_def eventMap_on)

lemma no_empty_entry_off: "no_empty_entry disp \<Longrightarrow> no_empty_entry (snd (off disp e cb))"
  by (simp add: no_empty_entry_def off_eq split: option.splits)


text \<open>The equations of a run, one for each kind of task.\<close>

lemma exec_Body_Nil: "exec h (Body cb [] d) st = Some (Inr (), st, [], [], d)"
  by (subst exec.simps) simp

lemma exec_Body_Cons:
  "exec h (Body cb (a # rest) details) this =
     (case a of
        DoThrow \<Rightarrow> Some (Inl (Thrown cb), this, [], [], details)
      | DoOn e l \<Rightarrow> exec h (Body cb rest details) (on this e l)
      | DoOff e l \<Rightarrow>
          Option.bind (exec h (Body cb rest details) (snd (off this e l)))
            (\<lambda>(r, this1, tr1, del1, details1).
               Some (r, this1, tr1,
                     (if eventMap this e \<noteq> None \<and> eventMap (snd (off this e l)) e = None
                      then [e] else []) @ del1, details1))
      | DoWrite k v \<Rightarrow>
          (case set_prop details k v of
             Inl err \<Rightarrow> Some (Inl err, this, [], [], details)
           | Inr details' \<Rightarrow> exec h (Body cb rest details') this)
      | DoTrigger e d \<Rightarrow>
          (case eventMap this e of
             None \<Rightarrow> exec h (Body cb rest details) this
           | Some callbacks \<Rightarrow>
               Option.bind (exec h (Loop e 0 d) this)
                 (\<lambda>(r, this1, tr1, del1, d1).
                    case r of
                      Inl err \<Rightarrow> Some (Inl err, this1, tr1, del1, details)
                    | Inr u \<Rightarrow>
                        Option.bind (exec h (Body cb rest details) this1)
                          (\<lambda>(r2, this2, tr2, del2, details2).
                             Some (r2, this2, tr1 @ tr2, del1 @ del2, details2)))))"
  by (subst exec.simps) simp

lemma exec_Loop:
  "exec h (Loop eventName i details) this =
     (case eventMap this eventName of
        None \<Rightarrow> Some (Inr (), this, [], [], details)
      | Some callbacks \<Rightarrow>
          if i < length callbacks then
            Option.bind
              (exec h (Body (callbacks ! i) (listener_body h (callbacks ! i) details) details) this)
              (\<lambda>(r, this1, tr1, del1, details1).
                 case r of
                   Inl e \<Rightarrow>
                     Some (Inl e, this1, Invoke (callbacks ! i) details # tr1, del1, details1)
                 | Inr u \<Rightarrow>
                     if eventName \<in> set del1
                     then Some (Inr (), this1, Invoke (callbacks ! i) details # tr1, del1, details1)
                     else Option.bind (exec h (Loop eventName (Suc i) details1) this1)
                            (\<lambda>(r2, this2, tr2, del2, details2).
                               Some (r2, this2, Invoke (callbacks ! i) details # tr1 @ tr2,
                                     del1 @ del2, details2)))
          else Some (Inr (), this, [], [], details))"
  by (subst exec.simps) simp

text \<open>Over listeners that return at once the loop calls each of them, in order, and
  changes nothing.\<close>

lemma exec_Loop_quiet:
  "eventMap st e = Some cbs \<Longrightarrow> \<forall>cb \<in> set (drop i cbs). listener_body h cb d = [] \<Longrightarrow>
   exec h (Loop e i d) st = Some (Inr (), st, map (\<lambda>cb. Invoke cb d) (drop i cbs), [], d)"
proof (induction "length cbs - i" arbitrary: i)
  case 0
  then show ?case by (subst exec_Loop) simp
next
  case (Suc n)
  then have lt: "i < length cbs" by simp
  then have dr: "drop i cbs = cbs ! i # drop (Suc i) cbs"
    by (simp add: Cons_nth_drop_Suc)
  with Suc.prems have b: "listener_body h (cbs ! i) d = []"
    and r: "\<forall>cb \<in> set (drop (Suc i) cbs). listener_body h cb d = []" by simp_all
  from Suc.hyps(2) have "n = length cbs - Suc i" by simp
  from Suc.hyps(1)[OF this Suc.prems(1) r]
  have ih: "exec h (Loop e (Suc i) d) st
      = Some (Inr (), st, map (\<lambda>cb. Invoke cb d) (drop (Suc i) cbs), [], d)" .
  show ?case
    by (subst exec_Loop) (simp add: Suc.prems(1) lt b exec_Body_Nil ih dr)
qed

text \<open>Over listeners that only return at once or raise at once the loop ends, and leaves
  the dispatcher and the details as they were.\<close>

lemma exec_Loop_plain:
  "eventMap st e = Some cbs \<Longrightarrow>
   \<forall>cb \<in> set (drop i cbs). listener_body h cb d = [] \<or> listener_body h cb d = [DoThrow] \<Longrightarrow>
   \<exists>r tr. exec h (Loop e i d) st = Some (r, st, tr, [], d)"
proof (induction "length cbs - i" arbitrary: i)
  case 0
  then show ?case by (subst exec_Loop) simp
next
  case (Suc n)
  then have lt: "i < length cbs" by simp
  then have dr: "drop i cbs = cbs ! i # drop (Suc i) cbs"
    by (simp add: Cons_nth_drop_Suc)
  with Suc.prems have b: "listener_body h (cbs ! i) d = [] \<or> listener_body h (cbs ! i) d = [DoThrow]"
    and r: "\<forall>cb \<in> set (drop (Suc i) cbs).
              listener_body h cb d = [] \<or> listener_body h cb d = [DoThrow]" by simp_all
  from Suc.hyps(2) have "n = length cbs - Suc i" by simp
  from Suc.hyps(1)[OF this Suc.prems(1) r]
  obtain r' tr' where ih: "exec h (Loop e (Suc i) d) st = Some (r', st, tr', [], d)" by blast
  from b show ?case
  proof
    assume "listener_body h (cbs ! i) d = []"
    then show ?thesis
      by (subst exec_Loop) (simp add: Suc.prems(1) lt exec_Body_Nil ih)
  next
    assume "listener_body h (cbs ! i) d = [DoThrow]"
    then show ?thesis
      by (subst exec_Loop) (simp add: Suc.prems(1) lt exec_Body_Cons)
  qed
qed

lemma trigger_plain:
  assumes "\<forall>cb \<in> set (listeners disp e). listener_body h cb d = [] \<or> listener_body h cb d = [DoThrow]"
  shows "\<exists>r tr. trigger h disp e d = Some (r, disp, tr)"
proof (cases "eventMap disp e")
  case None
  then show ?thesis by (simp add: trigger_def)
next
  case (Some cbs)
  with assms have "\<forall>cb \<in> set (drop 0 cbs).
      listener_body h cb d = [] \<or> listener_body h cb d = [DoThrow]"
    by (simp add: listeners_def)
  from exec_Loop_plain[OF Some this]
  obtain r tr where "exec h (Loop e 0 d) disp = Some (r, disp, tr, [], d)" by blast
  with Some show ?thesis by (cases r) (simp_all add: trigger_def)
qed

lemma trigger_returns:
  "eventMap disp e = Some cbs \<Longrightarrow> \<forall>cb \<in> set cbs. listener_body h cb d = [] \<Longrightarrow>
   trigger h disp e d = Some (Inr JUndefined, disp, map (\<lambda>cb. Invoke cb d) cbs)"
  using exec_Loop_quiet[of disp e cbs 0 h d] by (simp add: trigger_def)

lemma trigger_no_entry:
  "eventMap disp e = None \<Longrightarrow> trigger h disp e d = Some (Inr (JBool False), disp, [])"
  by (simp add: trigger_def)

text \<open>Whatever the listeners do, a \<open>trigger\<close> that has found an entry and returns, returns
  \<open>undefined\<close>.\<close>

lemma trigger_result_undefined:
  "eventMap disp e = Some cbs \<Longrightarrow> trigger h disp e d = Some (Inr r, disp', tr) \<Longrightarrow> r = JUndefined"
  by (auto simp: trigger_def split: option.splits sum.splits prod.splits)

text \<open>Whatever the listeners do through \<open>on\<close>, \<open>off\<close> and \<open>trigger\<close>, a run leaves no event name
  mapped to an empty sequence: by induction on the run.\<close>

lemma exec_keeps_no_empty_entry:
  assumes "exec h t st = Some y" and "no_empty_entry st"
  shows "no_empty_entry (fst (snd y))"
proof -
  have "no_empty_entry st \<longrightarrow> no_empty_entry (fst (snd y))"
    using assms(1)
  proof (induction rule: exec.raw_induct[rotated 1, consumes 1, case_names step])
    case (step exec' h t st y)
    show ?case
    proof (cases t)
      case (Loop e i d)
      with step show ?thesis
        by (auto split: option.splits if_splits sum.splits prod.splits Option.bind_splits)
    next
      case (Body cb acts d)
      show ?thesis
      proof (cases acts)
        case Nil
        with Body step show ?thesis by auto
      next
        case (Cons a rest)
        show ?thesis
        proof (cases a)
          case (DoOn e l)
          with Cons Body step(2) have "exec' h (Body cb rest d) (on st e l) = Some y" by simp
          from step(1)[OF this] show ?thesis using no_empty_entry_on by blast
        next
          case (DoOff e l)
          with Cons Body step(2) obtain y' where
            "exec' h (Body cb rest d) (snd (off st e l)) = Some y'" and "fst (snd y') = fst (snd y)"
            by (auto split: Option.bind_splits)
          with step(1)[OF this(1)] show ?thesis using no_empty_entry_off by metis
        next
          case (DoTrigger e d2)
          with Cons Body step show ?thesis
            by (auto split: option.splits sum.splits Option.bind_splits)
        next
          case (DoWrite k v)
          with Cons Body step show ?thesis
            by (auto split: sum.splits)
        next
          case DoThrow
          with Cons Body step show ?thesis by auto
        qed
      qed
    qed
  qed
  with assms(2) show ?thesis by simp
qed

lemma trigger_keeps_no_empty_entry:
  "trigger h disp e d = Some res \<Longrightarrow> no_empty_entry disp \<Longrightarrow> no_empty_entry (fst (snd res))"
  by (auto simp: trigger_def split: option.splits sum.splits prod.splits
           dest: exec_keeps_no_empty_entry)


lemma one_shot_alone:
  assumes m: "eventMap st e = Some [L]"
  shows "trigger (one_shot_host e L) st e d = Some (Inr JUndefined, snd (off st e L), [Invoke L d])"
proof -
  have o: "eventMap (snd (off st e L)) e = None"
    by (simp add: off_eq m)
  have b: "exec (one_shot_host e L) (Body L [DoOff e L] d) st
             = Some (Inr (), snd (off st e L), [], [e], d)"
    by (simp add: exec_Body_Cons exec_Body_Nil m o)
  have "exec (one_shot_host e L) (Loop e 0 d) st
             = Some (Inr (), snd (off st e L), [Invoke L d], [e], d)"
    by (subst exec_Loop) (simp add: m b)
  with m show ?thesis by (simp add: trigger_def)
qed


text \<open>
  C1. With one listener \<open>L\<close> registered for \<open>e\<close> on a new dispatcher, \<open>trigger(e, d)\<close> calls
  \<open>L\<close> with \<open>d\<close>, and the value it returns is \<open>undefined\<close>, which counts as false, as does
  the \<open>false\<close> that \<open>trigger\<close> returns on a dispatcher without listeners: the result does not
  tell a notified event from one that nobody listens to.
\<close>

theorem trigger_notified_result_undefined:
  "trigger quiet_host (on EventDispatcher e L) e d
     = Some (Inr JUndefined, on EventDispatcher e L, [Invoke L d])
   \<and> \<not> js_truthy JUndefined
   \<and> trigger quiet_host EventDispatcher e d = Some (Inr (JBool False), EventDispatcher, [])"
proof -
  have "eventMap (on EventDispatcher e L) e = Some [L]"
    by (simp add: eventMap_on listeners_def EventDispatcher_def)
  moreover have "\<forall>cb \<in> set [L]. listener_body quiet_host cb d = []"
    by simp
  moreover have "trigger quiet_host EventDispatcher e d = Some (Inr (JBool False), EventDispatcher, [])"
    by (simp add: trigger_no_entry EventDispatcher_def)
  ultimately show ?thesis
    using trigger_returns[of "on EventDispatcher e L" e "[L]" quiet_host d] by simp
qed

text \<open>
  C2. On a dispatcher with no entry for \<open>e\<close>, \<open>off(e, L)\<close> returns \<open>true\<close> and changes nothing;
  so does the second \<open>off(e, L)\<close> after the only listener of \<open>e\<close> has been removed. The value
  counts as true. On an entry that does not hold the listener, \<open>off\<close> returns \<open>false\<close>.
\<close>

theorem off_unknown_event_returns_true:
  "off EventDispatcher e L = (JBool True, EventDispatcher)
   \<and> snd (off (on EventDispatcher e L) e L) = EventDispatcher
   \<and> off (snd (off (on EventDispatcher e L) e L)) e L = (JBool True, EventDispatcher)
   \<and> js_truthy (JBool True)
   \<and> off (on EventDispatcher e 1) e 2 = (JBool False, on EventDispatcher e 1)"
proof -
  have a: "off EventDispatcher e L = (JBool True, EventDispatcher)"
    by (simp add: off_def EventDispatcher_def)
  have "eventMap (on EventDispatcher e L) e = Some [L]"
    by (simp add: eventMap_on listeners_def EventDispatcher_def)
  then have b: "snd (off (on EventDispatcher e L) e L) = EventDispatcher"
    by (simp add: off_eq eventMap_on EventDispatcher_def listeners_def)
  have "eventMap (on EventDispatcher e 1) e = Some [1]"
    by (simp add: eventMap_on listeners_def EventDispatcher_def)
  then have c: "off (on EventDispatcher e 1) e 2 = (JBool False, on EventDispatcher e 1)"
    by (simp add: off_eq)
  from a b c show ?thesis by simp
qed

text \<open>
  C3. A new dispatcher maps no event name to an empty sequence, and \<open>on\<close>, \<open>off\<close> and
  \<open>trigger\<close> keep it so, whatever the listeners called by \<open>trigger\<close> do through \<open>on\<close>, \<open>off\<close>
  and \<open>trigger\<close> in their turn. When the listeners of \<open>e\<close> only return or raise,
  \<open>trigger(e, d)\<close> ends and leaves the dispatcher as it was. When \<open>L\<close> is the only listener of
  \<open>e\<close>, \<open>off(e, L)\<close> reports the removal and deletes the entry of \<open>e\<close>, and a \<open>trigger(e, d)\<close>
  after it returns \<open>false\<close> and calls nothing, as for an event that never had a listener.
\<close>

theorem no_empty_entry_invariant:
  "no_empty_entry EventDispatcher
   \<and> (no_empty_entry disp \<longrightarrow>
        no_empty_entry (on disp e L)
        \<and> no_empty_entry (snd (off disp e L))
        \<and> (\<forall>res. trigger h disp e d = Some res \<longrightarrow> no_empty_entry (fst (snd res))))
   \<and> ((\<forall>cb \<in> set (listeners disp e).
          listener_body h cb d = [] \<or> listener_body h cb d = [DoThrow]) \<longrightarrow>
        (\<exists>r tr. trigger h disp e d = Some (r, disp, tr)))
   \<and> (eventMap disp e = Some [L] \<longrightarrow>
        fst (off disp e L) = JBool True
        \<and> eventMap (snd (off disp e L)) e = None
        \<and> trigger h (snd (off disp e L)) e d = Some (Inr (JBool False), snd (off disp e L), []))"
proof (intro conjI impI allI)
  show "no_empty_entry EventDispatcher"
    by (simp add: no_empty_entry_def EventDispatcher_def)
next
  assume "no_empty_entry disp"
  then show "no_empty_entry (on disp e L)" by (rule no_empty_entry_on)
next
  assume "no_empty_entry disp"
  then show "no_empty_entry (snd (off disp e L))" by (rule no_empty_entry_off)
next
  fix res
  assume "no_empty_entry disp" and "trigger h disp e d = Some res"
  then show "no_empty_entry (fst (snd res))" by (simp add: trigger_keeps_no_empty_entry)
next
  assume "\<forall>cb \<in> set (listeners disp e).
            listener_body h cb d = [] \<or> listener_body h cb d = [DoThrow]"
  then show "\<exists>r tr. trigger h disp e d = Some (r, disp, tr)" by (rule trigger_plain)
next
  assume "eventMap disp e = Some [L]"
  then show "fst (off disp e L) = JBool True" by (simp add: off_eq)
next
  assume "eventMap disp e = Some [L]"
  then show "eventMap (snd (off disp e L)) e = None" by (simp add: off_eq)
next
  assume "eventMap disp e = Some [L]"
  then have "eventMap (snd (off disp e L)) e = None" by (simp add: off_eq)
  then show "trigger h (snd (off disp e L)) e d = Some (Inr (JBool False), snd (off disp e L), [])"
    by (rule trigger_no_entry)
qed

theorem no_empty_entry_invariant_witness:
  "no_empty_entry (on EventDispatcher ''orphaned'' 4)
   \<and> eventMap (on EventDispatcher ''orphaned'' 4) ''orphaned'' = Some [4]
   \<and> no_empty_entry (on (on EventDispatcher ''orphaned'' 4) ''orphaned'' 4)
   \<and> no_empty_entry (snd (off (on EventDispatcher ''orphaned'' 4) ''orphaned'' 4))
   \<and> trigger (one_shot_host ''orphaned'' 4) (on EventDispatcher ''orphaned'' 4) ''orphaned'' JNull
       = Some (Inr JUndefined, snd (off (on EventDispatcher ''orphaned'' 4) ''orphaned'' 4),
               [Invoke 4 JNull])
   \<and> eventMap (snd (off (on EventDispatcher ''orphaned'' 4) ''orphaned'' 4)) ''orphaned'' = None
   \<and> trigger (one_shot_host ''orphaned'' 4)
        (snd (off (on EventDispatcher ''orphaned'' 4) ''orphaned'' 4)) ''orphaned'' JNull
       = Some (Inr (JBool False), snd (off (on EventDispatcher ''orphaned'' 4) ''orphaned'' 4), [])
   \<and> listeners (on EventDispatcher ''orphaned'' 4) ''orphaned'' = [4]
   \<and> listener_body (raising_host 4) 4 JNull = [DoThrow]
   \<and> (\<exists>r tr. trigger (raising_host 4) (on EventDispatcher ''orphaned'' 4) ''orphaned'' JNull
                = Some (r, on EventDispatcher ''orphaned'' 4, tr))"
proof -
  have inv: "no_empty_entry (on EventDispatcher ''orphaned'' 4)"
    by (simp add: no_empty_entry_def eventMap_on listeners_def EventDispatcher_def)
  have ent: "eventMap (on EventDispatcher ''orphaned'' 4) ''orphaned'' = Some [4]"
    by (simp add: eventMap_on listeners_def EventDispatcher_def)
  have lis: "listeners (on EventDispatcher ''orphaned'' 4) ''orphaned'' = [4]"
    by (simp add: listeners_def ent)
  note run = one_shot_alone[OF ent, of JNull]
  have a: "no_empty_entry (snd (off (on EventDispatcher ''orphaned'' 4) ''orphaned'' 4))
    \<and> eventMap (snd (off (on EventDispatcher ''orphaned'' 4) ''orphaned'' 4)) ''orphaned'' = None
    \<and> no_empty_entry (on (on EventDispatcher ''orphaned'' 4) ''orphaned'' 4)
    \<and> trigger (one_shot_host ''orphaned'' 4)
        (snd (off (on EventDispatcher ''orphaned'' 4) ''orphaned'' 4)) ''orphaned'' JNull
       = Some (Inr (JBool False), snd (off (on EventDispatcher ''orphaned'' 4) ''orphaned'' 4), [])"
    using inv ent
      no_empty_entry_invariant[of "on EventDispatcher ''orphaned'' 4" "''orphaned''" 4
        "one_shot_host ''orphaned'' 4" JNull]
    by simp
  have b: "\<exists>r tr. trigger (raising_host 4) (on EventDispatcher ''orphaned'' 4) ''orphaned'' JNull
                = Some (r, on EventDispatcher ''orphaned'' 4, tr)"
    using lis
      no_empty_entry_invariant[of "on EventDispatcher ''orphaned'' 4" "''orphaned''" 4
        "raising_host 4" JNull]
    by simp
  from inv ent run lis a b show ?thesis by simp
qed




section \<open>Properties of the router\<close>

text \<open>
  C5. For a message whose action is neither \<open>getUrl\<close> nor \<open>optionsUpdate\<close>, the handler of
  inbound messages returns \<open>false\<close> without raising, calls neither the reply callback nor
  any listener, and leaves the router, whatever its listener map, as it was.
\<close>

theorem onMessage_unknown_action:
  assumes "get_prop message (KStr ''action'') = Inr action"
    and "action \<noteq> JStr ''getUrl''" and "action \<noteq> JStr ''optionsUpdate''"
  shows "onMessage h (Yomichan\<lparr> eventMap := m \<rparr>) message sender
           = Some (Inr (JBool False), Yomichan\<lparr> eventMap := m \<rparr>, [])"
proof -
  from assms(1) obtain params where p: "get_prop message (KStr ''params'') = Inr params"
    by (cases message) (auto split: option.splits)
  have "map_of (messageHandlers (Yomichan\<lparr> eventMap := m \<rparr>)) action = None"
    using assms(2,3) by (simp add: Yomichan_def)
  with assms(1) p show ?thesis by (simp add: onMessage_def)
qed

theorem onMessage_unknown_action_witness:
  "get_prop (JObj [(KStr ''action'', JStr ''doesNotExist''), (KStr ''params'', JObj [])]) (KStr ''action'')
     = Inr (JStr ''doesNotExist'')
   \<and> JStr ''doesNotExist'' \<noteq> JStr ''getUrl'' \<and> JStr ''doesNotExist'' \<noteq> JStr ''optionsUpdate''
   \<and> onMessage quiet_host (Yomichan\<lparr> eventMap := [''optionsUpdate'' \<mapsto> [3]] \<rparr>)
        (JObj [(KStr ''action'', JStr ''doesNotExist''), (KStr ''params'', JObj [])]) JNull
       = Some (Inr (JBool False), Yomichan\<lparr> eventMap := [''optionsUpdate'' \<mapsto> [3]] \<rparr>, [])"
proof -
  have a: "get_prop (JObj [(KStr ''action'', JStr ''doesNotExist''), (KStr ''params'', JObj [])])
             (KStr ''action'') = Inr (JStr ''doesNotExist'')" by simp
  have b: "JStr ''doesNotExist'' \<noteq> JStr ''getUrl''" by simp
  have c: "JStr ''doesNotExist'' \<noteq> JStr ''optionsUpdate''" by simp
  show ?thesis
    using a b c onMessage_unknown_action[OF a b c, of quiet_host "[''optionsUpdate'' \<mapsto> [3]]" JNull]
    by simp
qed




section \<open>Properties of the helpers\<close>

text \<open>
  C7. For a value whose \<open>name\<close>, \<open>message\<close> and \<open>stack\<close> can be read and whose \<open>message\<close> is a
  string, \<open>errorToJson\<close> gives the object of these three fields, and serialising, rebuilding
  with \<open>jsonToError\<close> and serialising again gives the same object.
\<close>

theorem error_json_round_trip:
  assumes "get_prop e (KStr ''name'') = Inr name"
    and "get_prop e (KStr ''message'') = Inr (JStr message)"
    and "get_prop e (KStr ''stack'') = Inr stack"
  shows "errorToJson e
           = Inr (JObj [(KStr ''name'', name), (KStr ''message'', JStr message), (KStr ''stack'', stack)])
         \<and> bind_err (bind_err (errorToJson e) (jsonToError h)) errorToJson = errorToJson e"
proof -
  let ?j = "JObj [(KStr ''name'', name), (KStr ''message'', JStr message), (KStr ''stack'', stack)]"
  have 1: "errorToJson e = Inr ?j"
    using assms by (simp add: errorToJson_def)
  have 2: "jsonToError h ?j
             = Inr (JObj ((KStr ''stack'', stack) # (KStr ''name'', name)
                          # (KStr ''message'', JStr message)
                          # (KStr ''stack'', JStr (captured_stack h)) # Error_prototype))"
    by (simp add: jsonToError_def new_Error_def js_ToString_def Let_def)
  have 3: "errorToJson (JObj ((KStr ''stack'', stack) # (KStr ''name'', name)
                          # (KStr ''message'', JStr message)
                          # (KStr ''stack'', JStr (captured_stack h)) # Error_prototype)) = Inr ?j"
    by (simp add: errorToJson_def)
  from 1 2 3 show ?thesis by simp
qed

theorem error_json_round_trip_witness:
  "get_prop (JObj [(KStr ''message'', JStr ''boom''), (KStr ''stack'', JStr ''at f''),
                   (KStr ''name'', JStr ''RangeError'')]) (KStr ''name'') = Inr (JStr ''RangeError'')
   \<and> get_prop (JObj [(KStr ''message'', JStr ''boom''), (KStr ''stack'', JStr ''at f''),
                   (KStr ''name'', JStr ''RangeError'')]) (KStr ''message'') = Inr (JStr ''boom'')
   \<and> get_prop (JObj [(KStr ''message'', JStr ''boom''), (KStr ''stack'', JStr ''at f''),
                   (KStr ''name'', JStr ''RangeError'')]) (KStr ''stack'') = Inr (JStr ''at f'')
   \<and> bind_err (bind_err (errorToJson (JObj [(KStr ''message'', JStr ''boom''), (KStr ''stack'', JStr ''at f''),
                   (KStr ''name'', JStr ''RangeError'')])) (jsonToError quiet_host)) errorToJson
       = Inr (JObj [(KStr ''name'', JStr ''RangeError''), (KStr ''message'', JStr ''boom''),
                    (KStr ''stack'', JStr ''at f'')])"
proof -
  let ?e = "JObj [(KStr ''message'', JStr ''boom''), (KStr ''stack'', JStr ''at f''),
                   (KStr ''name'', JStr ''RangeError'')]"
  have a: "get_prop ?e (KStr ''name'') = Inr (JStr ''RangeError'')" by simp
  have b: "get_prop ?e (KStr ''message'') = Inr (JStr ''boom'')" by simp
  have c: "get_prop ?e (KStr ''stack'') = Inr (JStr ''at f'')" by simp
  note rt = error_json_round_trip[OF a b c, of quiet_host]
  from rt have "bind_err (bind_err (errorToJson ?e) (jsonToError quiet_host)) errorToJson
      = Inr (JObj [(KStr ''name'', JStr ''RangeError''), (KStr ''message'', JStr ''boom''),
                   (KStr ''stack'', JStr ''at f'')])"
    by (elim conjE) (rule trans)
  with a b c show ?thesis by (intro conjI)
qed

text \<open>
  C8. With a delay of zero \<open>promiseTimeout\<close> returns a promise already fulfilled with the
  value and with no property assigned on it: \<open>resolve\<close> and \<open>reject\<close> are absent, and a
  holder calling \<open>promise.resolve(w)\<close> gets a TypeError.
\<close>

theorem promiseTimeout_zero_delay_has_no_resolve:
  "promiseTimeout h (Fin 0) v
     = \<lparr> pstate = Fulfilled v, timer = None, promiseResolve = None, promiseReject = None,
         resolveValue = v, scheduled = [], properties = [] \<rparr>
   \<and> map_of (properties (promiseTimeout h (Fin 0) v)) ''resolve'' = None
   \<and> map_of (properties (promiseTimeout h (Fin 0) v)) ''reject'' = None
   \<and> call_property (promiseTimeout h (Fin 0) v) ''resolve'' w = Inl TypeError"
  by (simp add: promiseTimeout_def call_property_def)

text \<open>On the other path, for a delay that is not \<open>\<le> 0\<close>, both operations are on the promise;
  an early call settles the promise and cancels the timer, and the timer left alone
  fulfils the promise with the value given.\<close>

lemma promiseTimeout_positive_delay:
  "\<not> num_le_zero delay \<Longrightarrow>
   map_of (properties (promiseTimeout h delay v)) ''resolve'' = Some ResolveArrow
   \<and> map_of (properties (promiseTimeout h delay v)) ''reject'' = Some RejectArrow
   \<and> pstate (promiseTimeout h delay v) = Pending"
  by (simp add: promiseTimeout_def)

lemma promiseTimeout_early_resolve:
  "\<not> num_le_zero delay \<Longrightarrow>
   call_property (promiseTimeout h delay v) ''resolve'' w = Inr p \<Longrightarrow>
   pstate p = Fulfilled w \<and> scheduled p = [] \<and> timer_fires p (next_timer h) = p"
  by (auto simp: promiseTimeout_def call_property_def complete_def settle_def timer_fires_def Let_def)

lemma promiseTimeout_early_reject:
  "\<not> num_le_zero delay \<Longrightarrow>
   call_property (promiseTimeout h delay v) ''reject'' w = Inr p \<Longrightarrow>
   pstate p = Rejected w \<and> scheduled p = [] \<and> timer_fires p (next_timer h) = p"
  by (auto simp: promiseTimeout_def call_property_def complete_def settle_def timer_fires_def Let_def)

lemma promiseTimeout_elapses:
  "\<not> num_le_zero delay \<Longrightarrow>
   pstate (timer_fires (promiseTimeout h delay v) (next_timer h)) = Fulfilled v"
  by (simp add: promiseTimeout_def complete_def settle_def timer_fires_def Let_def)

text \<open>
  C9. Where \<open>Symbol\<close> exists, \<open>toIterable(null)\<close> and \<open>toIterable(undefined)\<close> raise the
  TypeError of the read \<open>value[Symbol.iterator]\<close>, not the error of the last line of the
  function, which is what \<open>null\<close> gets where \<open>Symbol\<close> does not exist.
\<close>

theorem toIterable_null_raises_TypeError:
  "toIterable (h\<lparr> has_Symbol := True \<rparr>) JNull = Inl TypeError
   \<and> toIterable (h\<lparr> has_Symbol := True \<rparr>) JUndefined = Inl TypeError
   \<and> Inl TypeError \<noteq> (Inl CouldNotConvert :: js_error + jsval)
   \<and> toIterable (h\<lparr> has_Symbol := False \<rparr>) JNull = Inl CouldNotConvert"
  by (simp add: toIterable_def toIterable_arraylike_def)

text \<open>For every other value the function returns when the value is natively iterable or
  array-like, and raises its own error when it is neither.\<close>

lemma toIterable_loop_object:
  "\<exists>array. toIterable_loop (JObj ps) len i acc = Inr array"
proof (induction "JObj ps" len i acc rule: toIterable_loop.induct)
  case (1 len i array)
  show ?case
  proof (cases "real i < len")
    case True
    with 1 show ?thesis by (subst toIterable_loop.simps) simp
  next
    case False
    then show ?thesis by (subst toIterable_loop.simps) simp
  qed
qed

lemma toIterable_loop_array:
  "\<exists>array. toIterable_loop (JArr xs) len i acc = Inr array"
proof (induction "JArr xs" len i acc rule: toIterable_loop.induct)
  case (1 len i array)
  show ?case
  proof (cases "real i < len")
    case True
    with 1 show ?thesis by (subst toIterable_loop.simps) simp
  next
    case False
    then show ?thesis by (subst toIterable_loop.simps) simp
  qed
qed

lemma isFinite_cases: "isFinite len \<Longrightarrow> \<exists>r. len = JNum (Fin r)"
  by (cases len rule: isFinite.cases) auto

lemma toIterable_arraylike_result:
  "v \<noteq> JNull \<Longrightarrow> v \<noteq> JUndefined \<Longrightarrow>
   (array_like v \<longrightarrow> (\<exists>array. toIterable_arraylike v = Inr (JArr array)))
   \<and> (\<not> array_like v \<longrightarrow> toIterable_arraylike v = Inl CouldNotConvert)"
proof (cases v)
  case (JArr xs)
  obtain array where "toIterable_loop (JArr xs) (real (length xs)) 0 [] = Inr array"
    using toIterable_loop_array by blast
  with JArr show ?thesis by (simp add: toIterable_arraylike_def array_like_def)
next
  case (JObj ps)
  show ?thesis
  proof (cases "array_like v")
    case True
    then obtain r where r: "get_prop v (KStr ''length'') = Inr (JNum (Fin r))"
      by (auto simp: array_like_def split: sum.splits dest: isFinite_cases)
    obtain array where "toIterable_loop (JObj ps) r 0 [] = Inr array"
      using toIterable_loop_object by blast
    with JObj r True show ?thesis by (simp add: toIterable_arraylike_def)
  next
    case False
    with JObj show ?thesis
      by (auto simp: toIterable_arraylike_def array_like_def split: sum.splits)
  qed
qed (simp_all add: toIterable_arraylike_def array_like_def)

lemma toIterable_on_defined_values:
  assumes "v \<noteq> JNull" and "v \<noteq> JUndefined"
  shows "(natively_iterable h v \<or> array_like v \<longrightarrow> (\<exists>r. toIterable h v = Inr r))
         \<and> (\<not> natively_iterable h v \<and> \<not> array_like v \<longrightarrow> toIterable h v = Inl CouldNotConvert)"
proof -
  from assms obtain it where it: "get_prop v KIterator = Inr it"
    by (cases v) (auto split: key.splits)
  show ?thesis
  proof (cases "natively_iterable h v")
    case True
    with it show ?thesis by (simp add: natively_iterable_def toIterable_def)
  next
    case False
    with it have "toIterable h v = toIterable_arraylike v"
      by (auto simp: natively_iterable_def toIterable_def)
    with False toIterable_arraylike_result[OF assms] show ?thesis by auto
  qed
qed

text \<open>
  C10. When the first \<open>exec\<close> of the regular expression on the string finds no match,
  \<open>stringReplaceAsync\<close> returns a promise fulfilled with the string itself and has not
  called the replacer.
\<close>

theorem stringReplaceAsync_no_match:
  assumes "fst (regex_exec rx str) = None"
  shows "stringReplaceAsync str rx replacer = Some (Fulfilled (JStr str), snd (regex_exec rx str), [])"
proof -
  from assms obtain rx' where ex: "regex_exec rx str = (None, rx')"
    by (cases "regex_exec rx str") simp
  then have "replace_loop rx replacer str 0 [] [] = Some (snd (regex_exec rx str), 0, [], [])"
    by (subst replace_loop.simps) simp
  then show ?thesis by (simp add: stringReplaceAsync_def)
qed

theorem stringReplaceAsync_no_match_witness:
  "fst (regex_exec \<lparr> matcher = (\<lambda>i s. (None, 0)), lastIndex = 2 \<rparr> ''abc'') = None
   \<and> stringReplaceAsync ''abc'' \<lparr> matcher = (\<lambda>i s. (None, 0)), lastIndex = 2 \<rparr> (\<lambda>args. ''x'')
       = Some (Fulfilled (JStr ''abc''), \<lparr> matcher = (\<lambda>i s. (None, 0)), lastIndex = 0 \<rparr>, [])"
proof -
  have a: "fst (regex_exec \<lparr> matcher = (\<lambda>i s. (None, 0)), lastIndex = 2 \<rparr> ''abc'') = None"
    by (simp add: regex_exec_def)
  show ?thesis
    using a stringReplaceAsync_no_match[OF a, of "\<lambda>args. ''x''"]
    by (simp add: regex_exec_def)
qed

end
